theory Spec2Isabelle
  imports Complex_Main "HOL-Library.Sublist" "HOL-Library.AList" "HOL-Library.Option_ord"
begin

section \<open>Python values used by the legal document analyser\<close>

text \<open>
  Texts are Python \<open>str\<close> values, modelled as \<^typ>\<open>string\<close>: a \<^typ>\<open>char\<close> is a code point
  below 256. On these code points \<open>str.lower\<close> maps \<open>A..Z\<close> and the capital letters
  \<open>U+00C0..U+00DE\<close> (all but the sign \<open>U+00D7\<close>) to the letter 32 places on and leaves
  every other character alone; \<open>str.isspace\<close>, which is the whitespace of
  \<open>str.strip\<close>, of \<open>str.split\<close> and of the regular expression class \<open>\s\<close>, holds of
  the codes 9 to 13, 28 to 32, \<open>U+0085\<close> and \<open>U+00A0\<close>; and the class \<open>\d\<close> holds of
  the digits \<open>0..9\<close>. Scores are Python floats, modelled as \<^typ>\<open>real\<close>: the code only
  divides small counts and compares.
\<close>

datatype pyexc =
    HTTPException nat string
  | ValueError
  | KeyError
  | AttributeError
  | Exception string

definition lower_char :: "char \<Rightarrow> char" where
  "lower_char c =
     (if (65 \<le> (of_char c :: nat) \<and> (of_char c :: nat) \<le> 90)
         \<or> (192 \<le> (of_char c :: nat) \<and> (of_char c :: nat) \<le> 222 \<and> (of_char c :: nat) \<noteq> 215)
      then char_of (of_char c + 32 :: nat) else c)"

definition lower :: "string \<Rightarrow> string" where
  "lower s = map lower_char s"

text \<open>
  \<open>max(iterable, key=f)\<close>: the first element is the candidate, and a later element
  replaces it only when its key is strictly greater; an empty iterable raises.
\<close>

fun max_from :: "('a \<Rightarrow> 'b::linorder) \<Rightarrow> 'a \<Rightarrow> 'a list \<Rightarrow> 'a" where
  "max_from key best [] = best"
| "max_from key best (x # xs) = max_from key (if key best < key x then x else best) xs"

definition py_max :: "('a \<Rightarrow> 'b::linorder) \<Rightarrow> 'a list \<Rightarrow> pyexc + 'a" where
  "py_max key xs = (case xs of [] \<Rightarrow> Inl ValueError | x # rest \<Rightarrow> Inr (max_from key x rest))"

section \<open>LegalDocumentProcessor.classify_document_type\<close>

record classification =
  document_type :: string
  confidence :: real
  all_scores :: "(string \<times> real) list"

definition doc_indicators :: "(string \<times> string list) list" where
  "doc_indicators =
     [(''contract'', [''agreement'', ''party'', ''whereas'', ''covenant'']),
      (''license'', [''license'', ''licensor'', ''licensee'', ''grant'']),
      (''lease'', [''lease'', ''lessor'', ''lessee'', ''rent'', ''premises'']),
      (''employment'', [''employee'', ''employer'', ''employment'', ''salary'']),
      (''nda'', [''confidential'', ''non-disclosure'', ''proprietary''])]"

text \<open>
  The loop fills the dict \<open>scores\<close> in the order of \<open>doc_indicators\<close>, whose keys are
  distinct, so the dict is the association list below. \<open>indicator in text_lower\<close> is
  the substring test \<^const>\<open>sublist\<close>. \<open>scores.get\<close> is \<^term>\<open>map_of scores\<close>; it is
  only applied to keys of \<open>scores\<close>, so the value \<open>None\<close> it gives an absent key is
  never compared. \<open>max\<close> on an empty dict and \<open>scores[predicted_type]\<close> on an absent
  key raise; both are branches of the model.
\<close>

definition indicator_score :: "string \<Rightarrow> string list \<Rightarrow> real" where
  "indicator_score text_lower indicators =
     real (length (filter (\<lambda>indicator. sublist indicator text_lower) indicators))
       / real (length indicators)"

definition classify_document_type :: "string \<Rightarrow> pyexc + classification" where
  "classify_document_type text =
     (let text_lower = lower text;
          scores = map (\<lambda>(doc_type, indicators). (doc_type, indicator_score text_lower indicators))
                     doc_indicators
      in case py_max (map_of scores) (map fst scores) of
           Inl e \<Rightarrow> Inl e
         | Inr predicted_type \<Rightarrow>
             (case map_of scores predicted_type of
                None \<Rightarrow> Inl KeyError
              | Some conf \<Rightarrow>
                  Inr \<lparr>document_type = predicted_type, confidence = conf, all_scores = scores\<rparr>))"

section \<open>Whitespace, \<open>str.strip\<close>, \<open>str.split\<close>, \<open>str.replace\<close> and \<open>re.sub\<close>\<close>

definition isspace :: "char \<Rightarrow> bool" where
  "isspace c =
     ((9 \<le> (of_char c :: nat) \<and> (of_char c :: nat) \<le> 13)
      \<or> (28 \<le> (of_char c :: nat) \<and> (of_char c :: nat) \<le> 32)
      \<or> (of_char c :: nat) = 133
      \<or> (of_char c :: nat) = 160)"

definition isdigit :: "char \<Rightarrow> bool" where
  "isdigit c = (48 \<le> (of_char c :: nat) \<and> (of_char c :: nat) \<le> 57)"

definition strip :: "string \<Rightarrow> string" where
  "strip s = rev (dropWhile isspace (rev (dropWhile isspace s)))"

text \<open>\<open>s.split()\<close>: the maximal runs of non-whitespace characters, in order.\<close>

fun split_from :: "string \<Rightarrow> string \<Rightarrow> string list" where
  "split_from word [] = (if word = [] then [] else [word])"
| "split_from word (c # cs) =
     (if isspace c then (if word = [] then split_from [] cs else word # split_from [] cs)
      else split_from (word @ [c]) cs)"

definition split :: "string \<Rightarrow> string list" where
  "split s = split_from [] s"

text \<open>
  \<open>re.sub(r'X+', ' ', s)\<close> for a character class \<open>X\<close>: every maximal run of characters
  of the class becomes one space. The flag says whether the previous character was in
  the run already replaced.
\<close>

fun sub_runs :: "(char \<Rightarrow> bool) \<Rightarrow> bool \<Rightarrow> string \<Rightarrow> string" where
  "sub_runs cls in_run [] = []"
| "sub_runs cls in_run (c # cs) =
     (if cls c then (if in_run then sub_runs cls True cs else CHR '' '' # sub_runs cls True cs)
      else c # sub_runs cls False cs)"

text \<open>
  \<open>s.replace(old, new)\<close>: every occurrence of \<open>old\<close>, left to right and without
  overlap; an empty \<open>old\<close> matches before every character and at the end.
\<close>

function replace :: "string \<Rightarrow> string \<Rightarrow> string \<Rightarrow> string" where
  "replace old new [] = (if old = [] then new else [])"
| "replace old new (c # cs) =
     (if old = [] then new @ c # replace old new cs
      else if prefix old (c # cs) then new @ replace old new (drop (length old) (c # cs))
      else c # replace old new cs)"
  by pat_completeness auto
termination
  by (relation "measure (\<lambda>(old, new, s). length s)") (auto simp: Suc_le_eq)

section \<open>LegalDocumentProcessor.preprocess_text\<close>

definition preprocess_text :: "string \<Rightarrow> string" where
  "preprocess_text text =
     (let text1 = sub_runs isspace False (strip text);
          text2 = sub_runs (\<lambda>c. c = CHR 0x0A) False text1;
          text3 = sub_runs (\<lambda>c. c = CHR 0x09) False text2
      in text3)"

section \<open>LegalDocumentProcessor.extract_legal_entities\<close>

text \<open>
  One attempt of the pattern \<open>\$[\d,]+(?:\.\d{2})?\<close> at the start of a string: a dollar
  sign, the longest run of digits and commas (at least one), then a dot and two digits
  when they follow. The greedy run never has to give characters back, since the
  optional group may match nothing. The result is the match and the text after it.
\<close>

definition match_money :: "string \<Rightarrow> (string \<times> string) option" where
  "match_money s =
     (case s of
        [] \<Rightarrow> None
      | c # r \<Rightarrow>
          if c \<noteq> CHR ''$'' then None
          else let body = takeWhile (\<lambda>d. isdigit d \<or> d = CHR '','') r;
                   after = dropWhile (\<lambda>d. isdigit d \<or> d = CHR '','') r
               in if body = [] then None
                  else (case after of
                          p # d1 # d2 # rest \<Rightarrow>
                            if p = CHR ''.'' \<and> isdigit d1 \<and> isdigit d2
                            then Some (c # body @ [p, d1, d2], rest)
                            else Some (c # body, after)
                        | _ \<Rightarrow> Some (c # body, after)))"

text \<open>
  \<open>re.findall\<close>: scan from the left; after a match continue behind it, otherwise move
  one character on.
\<close>

function findall_money :: "string \<Rightarrow> string list" where
  "findall_money [] = []"
| "findall_money (c # cs) =
     (case match_money (c # cs) of
        Some (m, rest) \<Rightarrow> m # findall_money rest
      | None \<Rightarrow> findall_money cs)"
  by pat_completeness auto
termination
proof (relation "measure length")
  show "wf (measure length)"
    by simp
next
  fix c :: char and cs :: string
  show "(cs, c # cs) \<in> measure length"
    by simp
next
  fix c :: char and cs :: string and found :: "string \<times> string" and m rest :: string
  assume found: "match_money (c # cs) = Some found" "(m, rest) = found"
  let ?after = "dropWhile (\<lambda>d. isdigit d \<or> d = CHR '','') cs"
  have "length ?after \<le> length cs"
    by (rule length_dropWhile_le)
  moreover from found have "length rest \<le> length ?after"
    by (auto simp: match_money_def Let_def split: if_splits list.splits)
  ultimately show "(rest, c # cs) \<in> measure length"
    by simp
qed

text \<open>
  The dict \<open>entities\<close> keeps insertion order; it is an association list. A span whose
  label is a key is appended to that key's list; any other label is skipped.
\<close>

type_synonym entity_dict = "(string \<times> string list) list"

definition empty_entities :: entity_dict where
  "empty_entities =
     [(''PERSON'', []), (''ORG'', []), (''DATE'', []), (''MONEY'', []), (''GPE'', [])]"

definition add_entity :: "entity_dict \<Rightarrow> string \<times> string \<Rightarrow> entity_dict" where
  "add_entity entities ent =
     (case map_of entities (fst ent) of
        None \<Rightarrow> entities
      | Some spans \<Rightarrow> AList.update (fst ent) (spans @ [snd ent]) entities)"

definition extract_legal_entities ::
  "(string \<Rightarrow> pyexc + (string \<times> string) list) \<Rightarrow> string \<Rightarrow> pyexc + entity_dict" where
  "extract_legal_entities nlp text =
     (case nlp text of
        Inl e \<Rightarrow> Inl e
      | Inr ents \<Rightarrow>
          (let entities = foldl add_entity empty_entities ents;
               monetary_amounts = findall_money text
           in Inr (AList.update ''monetary_amounts'' monetary_amounts entities)))"

section \<open>LegalDocumentProcessor.extract_key_clauses\<close>

record clause =
  clause_text :: string
  clause_confidence :: real

definition questions_for :: "string option \<Rightarrow> string list" where
  "questions_for doc_type =
     (if doc_type = Some ''contract'' then
        [''What is the effective date?'',
         ''Who are the parties?'',
         ''What are the payment terms?'',
         ''What is the governing law?'']
      else if doc_type = Some ''employment'' then
        [''What is the salary?'',
         ''What is the job title?'',
         ''When does employment start?'',
         ''What are the benefits?'']
      else
        [''What are the main terms?'',
         ''Who are the parties involved?'',
         ''What are the key obligations?''])"

definition clause_key :: "string \<Rightarrow> string" where
  "clause_key question =
     replace ''?'' '''' (replace ''What are '' '''' (replace ''What is '' '''' question))"

text \<open>
  The loop over the questions. The collaborator \<open>qa\<close> (\<open>self.qa_pipeline\<close>) gets the question and the
  whole text and returns the answer and its score, or raises; an exception is caught
  inside the loop body (a warning is logged) and the loop goes on. The dict
  \<open>extracted_clauses\<close> is an association list; the score \<open>0.1\<close> is a float literal,
  read as a real.
\<close>

type_synonym qa_collaborator = "string \<Rightarrow> string \<Rightarrow> pyexc + (string \<times> real)"

fun clauses_loop ::
  "qa_collaborator \<Rightarrow> string \<Rightarrow> string list \<Rightarrow> (string \<times> clause) list
     \<Rightarrow> (string \<times> clause) list" where
  "clauses_loop qa text [] extracted_clauses = extracted_clauses"
| "clauses_loop qa text (question # questions) extracted_clauses =
     (case qa question text of
        Inl e \<Rightarrow> clauses_loop qa text questions extracted_clauses
      | Inr (answer, score) \<Rightarrow>
          if score > 0.1
          then clauses_loop qa text questions
                 (AList.update (clause_key question)
                    \<lparr>clause_text = answer, clause_confidence = score\<rparr> extracted_clauses)
          else clauses_loop qa text questions extracted_clauses)"

definition extract_key_clauses ::
  "qa_collaborator \<Rightarrow> string \<Rightarrow> string option \<Rightarrow> (string \<times> clause) list" where
  "extract_key_clauses qa text doc_type =
     clauses_loop qa text (questions_for doc_type) []"

section \<open>LegalDocumentProcessor.generate_summary\<close>

text \<open>
  The T5 tokenizer and model are one collaborator: it gets the prompt and the maximal
  length and returns the decoded summary, or raises.
\<close>

definition generate_summary :: "(string \<Rightarrow> nat \<Rightarrow> pyexc + string) \<Rightarrow> string \<Rightarrow> nat \<Rightarrow> pyexc + string" where
  "generate_summary t5 text max_length = t5 (''summarize: '' @ text) max_length"

section \<open>LegalDocumentProcessor.analyze_document\<close>

record processor =
  nlp :: "string \<Rightarrow> pyexc + (string \<times> string) list"
  qa_pipeline :: qa_collaborator
  t5 :: "string \<Rightarrow> nat \<Rightarrow> pyexc + string"

record document_info =
  info_type :: string
  info_confidence :: real
  info_length :: nat
  info_processed_at :: string

record analysis =
  doc_info :: document_info
  entities :: entity_dict
  key_clauses :: "(string \<times> clause) list"
  summary :: string
  classification_scores :: "(string \<times> real) list"

text \<open>
  The pipeline, stage by stage; an exception of a stage leaves the function at once.
  \<open>now\<close> is what \<open>datetime.now().isoformat()\<close> returns.
\<close>

definition analyze_document :: "processor \<Rightarrow> string \<Rightarrow> string \<Rightarrow> pyexc + analysis" where
  "analyze_document self now text =
     (let processed_text = preprocess_text text in
      case classify_document_type processed_text of
        Inl e \<Rightarrow> Inl e
      | Inr doc_classification \<Rightarrow>
          (case extract_legal_entities (nlp self) processed_text of
             Inl e \<Rightarrow> Inl e
           | Inr ents \<Rightarrow>
               (let clauses = extract_key_clauses (qa_pipeline self) processed_text
                                (Some (document_type doc_classification)) in
                case generate_summary (t5 self) processed_text 150 of
                  Inl e \<Rightarrow> Inl e
                | Inr summ \<Rightarrow>
                    Inr \<lparr>doc_info =
                           \<lparr>info_type = document_type doc_classification,
                            info_confidence = confidence doc_classification,
                            info_length = length (split text),
                            info_processed_at = now\<rparr>,
                         entities = ents,
                         key_clauses = clauses,
                         summary = summ,
                         classification_scores = all_scores doc_classification\<rparr>)))"

section \<open>pdf_processor.PDFProcessor.extract_text_from_pdf\<close>

text \<open>
  \<open>PdfReader\<close> is a collaborator: from the bytes it gives the text of every page, or
  raises (while opening the file or while extracting a page). \<open>str_of\<close> is Python's
  \<open>str\<close> on an exception.
\<close>

type_synonym pdf_reader = "string \<Rightarrow> pyexc + string list"

definition extract_text_from_pdf ::
  "(pyexc \<Rightarrow> string) \<Rightarrow> pdf_reader \<Rightarrow> string \<Rightarrow> pyexc + string" where
  "extract_text_from_pdf str_of reader pdf_file =
     (case reader pdf_file of
        Inl e \<Rightarrow> Inl (Exception (''Failed to process PDF file: '' @ str_of e))
      | Inr pages \<Rightarrow> Inr (strip (foldl (\<lambda>text page. text @ page @ [CHR 0x0A]) [] pages)))"

section \<open>simple_api: the job store and the endpoints\<close>

datatype job_status = Starting | Extracting_text | Analyzing | Completed | Error

text \<open>
  An entry of \<open>processing_status\<close>: the dict written by the code has the key
  \<open>status\<close> and, depending on the state, \<open>progress\<close>, \<open>results\<close> or \<open>error\<close>.
\<close>

record job =
  status :: job_status
  progress :: "nat option"
  results :: "analysis option"
  error :: "string option"

text \<open>
  What the module can observe or change: the dict \<open>processing_status\<close>, the tasks handed
  to \<open>BackgroundTasks\<close>, and the number of identifiers drawn from \<open>uuid.uuid4\<close>. The
  field \<open>events\<close> is a log kept for the proofs: every assignment to an entry of
  \<open>processing_status\<close> and every call of the text extraction and of the analysis
  pipeline, in program order.
\<close>

datatype event =
    Wrote string job
  | Called_extract string
  | Called_analyze string

record api_state =
  processing_status :: "string \<rightharpoonup> job"
  background_tasks :: "(string \<times> string) list"
  uuid_calls :: nat
  events :: "event list"

definition write_status :: "string \<Rightarrow> job \<Rightarrow> api_state \<Rightarrow> api_state" where
  "write_status task_id entry st =
     st\<lparr>processing_status := (processing_status st)(task_id \<mapsto> entry),
        events := events st @ [Wrote task_id entry]\<rparr>"

definition log_event :: "event \<Rightarrow> api_state \<Rightarrow> api_state" where
  "log_event ev st = st\<lparr>events := events st @ [ev]\<rparr>"

text \<open>
  \<open>POST /analyze\<close>. The body of the \<open>try\<close> block first; the handler
  \<open>except Exception\<close> then turns whatever was raised inside, the
  \<open>HTTPException(400)\<close> of the block itself included, into \<open>HTTPException(500)\<close>.
\<close>

definition analyze_document_try ::
  "processor \<Rightarrow> string \<Rightarrow> string \<Rightarrow> api_state \<Rightarrow> (pyexc + analysis) \<times> api_state" where
  "analyze_document_try self now request_text st =
     (if request_text = [] then (Inl (HTTPException 400 ''No document content provided''), st)
      else (analyze_document self now request_text, log_event (Called_analyze request_text) st))"

definition analyze_document_endpoint ::
  "(pyexc \<Rightarrow> string) \<Rightarrow> processor \<Rightarrow> string \<Rightarrow> string \<Rightarrow> api_state
     \<Rightarrow> (pyexc + analysis) \<times> api_state" where
  "analyze_document_endpoint str_of self now request_text st =
     (case analyze_document_try self now request_text st of
        (Inl e, st') \<Rightarrow> (Inl (HTTPException 500 (str_of e)), st')
      | (Inr content, st') \<Rightarrow> (Inr content, st'))"

text \<open>
  \<open>process_pdf_background\<close>: the \<open>try\<close> block returns the exception that left it, if
  any; the handler then writes the error entry.
\<close>

definition process_pdf_try ::
  "(pyexc \<Rightarrow> string) \<Rightarrow> pdf_reader \<Rightarrow> processor \<Rightarrow> string \<Rightarrow> string \<Rightarrow> string \<Rightarrow> api_state
     \<Rightarrow> pyexc option \<times> api_state" where
  "process_pdf_try str_of reader self now task_id pdf_content st =
     (let st1 = write_status task_id
                  \<lparr>status = Extracting_text, progress = Some 10, results = None, error = None\<rparr> st;
          st2 = log_event (Called_extract pdf_content) st1
      in case extract_text_from_pdf str_of reader pdf_content of
           Inl e \<Rightarrow> (Some e, st2)
         | Inr text \<Rightarrow>
             if strip text = [] then
               (None, write_status task_id
                        \<lparr>status = Error, progress = None, results = None,
                         error = Some ''Could not extract text from PDF''\<rparr> st2)
             else
               (let st3 = write_status task_id
                            \<lparr>status = Analyzing, progress = Some 50, results = None, error = None\<rparr>
                            st2;
                    st4 = log_event (Called_analyze text) st3
                in case analyze_document self now text of
                     Inl e \<Rightarrow> (Some e, st4)
                   | Inr res \<Rightarrow>
                       (None, write_status task_id
                                \<lparr>status = Completed, progress = Some 100, results = Some res,
                                 error = None\<rparr> st4)))"

definition process_pdf_background ::
  "(pyexc \<Rightarrow> string) \<Rightarrow> pdf_reader \<Rightarrow> processor \<Rightarrow> string \<Rightarrow> string \<Rightarrow> string \<Rightarrow> api_state
     \<Rightarrow> api_state" where
  "process_pdf_background str_of reader self now task_id pdf_content st =
     (case process_pdf_try str_of reader self now task_id pdf_content st of
        (Some e, st') \<Rightarrow>
          write_status task_id
            \<lparr>status = Error, progress = None, results = None, error = Some (str_of e)\<rparr> st'
      | (None, st') \<Rightarrow> st')"

text \<open>
  \<open>POST /analyze-pdf\<close>. An upload has a file name (or none) and the outcome of
  \<open>file.read()\<close>; \<open>uuid4 n\<close> is the \<open>n\<close>-th identifier the generator hands out.
\<close>

record upload =
  filename :: "string option"
  read :: "pyexc + string"

definition analyze_pdf_try ::
  "(nat \<Rightarrow> string) \<Rightarrow> upload \<Rightarrow> api_state \<Rightarrow> (pyexc + string) \<times> api_state" where
  "analyze_pdf_try uuid4 file st =
     (case filename file of
        None \<Rightarrow> (Inl AttributeError, st)
      | Some name \<Rightarrow>
          if \<not> suffix ''.pdf'' (lower name) then (Inl (HTTPException 400 ''File must be a PDF''), st)
          else
            (let task_id = uuid4 (uuid_calls st);
                 st1 = st\<lparr>uuid_calls := Suc (uuid_calls st)\<rparr>;
                 st2 = write_status task_id
                         \<lparr>status = Starting, progress = Some 0, results = None, error = None\<rparr> st1
             in case read file of
                  Inl e \<Rightarrow> (Inl e, st2)
                | Inr pdf_content \<Rightarrow>
                    (Inr task_id,
                     st2\<lparr>background_tasks := background_tasks st2 @ [(task_id, pdf_content)]\<rparr>)))"

definition analyze_pdf_document ::
  "(pyexc \<Rightarrow> string) \<Rightarrow> (nat \<Rightarrow> string) \<Rightarrow> upload \<Rightarrow> api_state
     \<Rightarrow> (pyexc + string) \<times> api_state" where
  "analyze_pdf_document str_of uuid4 file st =
     (case analyze_pdf_try uuid4 file st of
        (Inl e, st') \<Rightarrow> (Inl (HTTPException 500 (str_of e)), st')
      | (Inr task_id, st') \<Rightarrow> (Inr task_id, st'))"

definition get_processing_status :: "string \<Rightarrow> api_state \<Rightarrow> pyexc + job" where
  "get_processing_status task_id st =
     (case processing_status st task_id of
        None \<Rightarrow> Inl (HTTPException 404 ''Task not found'')
      | Some entry \<Rightarrow> Inr entry)"

text \<open>
  After the response is sent the framework runs the tasks handed to it, in order. A
  submission followed by the run of its task is the whole life of one job.
\<close>

fun run_background_tasks ::
  "(pyexc \<Rightarrow> string) \<Rightarrow> pdf_reader \<Rightarrow> processor \<Rightarrow> string \<Rightarrow> (string \<times> string) list
     \<Rightarrow> api_state \<Rightarrow> api_state" where
  "run_background_tasks str_of reader self now [] st = st"
| "run_background_tasks str_of reader self now ((task_id, pdf_content) # tasks) st =
     run_background_tasks str_of reader self now tasks
       (process_pdf_background str_of reader self now task_id pdf_content st)"

definition submit_and_run ::
  "(pyexc \<Rightarrow> string) \<Rightarrow> (nat \<Rightarrow> string) \<Rightarrow> pdf_reader \<Rightarrow> processor \<Rightarrow> string \<Rightarrow> upload
     \<Rightarrow> api_state \<Rightarrow> api_state" where
  "submit_and_run str_of uuid4 reader self now file st =
     (let st1 = snd (analyze_pdf_document str_of uuid4 file st)
      in run_background_tasks str_of reader self now (background_tasks st1)
           (st1\<lparr>background_tasks := []\<rparr>))"

text \<open>
  The claim's words: a keyword occurs case-insensitively in a text when some segment of
  the text equals it up to letter case.
\<close>

definition occurs_ci :: "string \<Rightarrow> string \<Rightarrow> bool" where
  "occurs_ci keyword text =
     (\<exists>pre seg post. text = pre @ seg @ post \<and> lower seg = lower keyword)"

definition keyword_density :: "string \<Rightarrow> string list \<Rightarrow> real" where
  "keyword_density text keywords =
     real (card {k \<in> set keywords. occurs_ci k text}) / real (card (set keywords))"

text \<open>The five categories the extractor keeps from the recogniser.\<close>

definition entity_labels :: "string list" where
  "entity_labels = [''PERSON'', ''ORG'', ''DATE'', ''MONEY'', ''GPE'']"

text \<open>The claim's words: no category holds the same span twice.\<close>

definition deduplicated :: "entity_dict \<Rightarrow> bool" where
  "deduplicated es = list_all (\<lambda>(category, spans). distinct spans) es"

text \<open>
  The claim's order on job states: \<open>STARTING < EXTRACTING_TEXT < ANALYZING\<close>, and the two
  terminal states above them. \<open>writes_of\<close> reads from a log the entries written to one
  job, in order, and \<open>writes_elsewhere\<close> counts the writes to other keys;
  \<open>entry_shape\<close> is what the claim says each state carries.
\<close>

fun rank :: "job_status \<Rightarrow> nat" where
  "rank Starting = 0"
| "rank Extracting_text = 1"
| "rank Analyzing = 2"
| "rank Completed = 3"
| "rank Error = 3"

definition terminal :: "job_status \<Rightarrow> bool" where
  "terminal s = (s = Completed \<or> s = Error)"

fun writes_of :: "string \<Rightarrow> event list \<Rightarrow> job list" where
  "writes_of task_id [] = []"
| "writes_of task_id (Wrote t entry # evs) =
     (if t = task_id then entry # writes_of task_id evs else writes_of task_id evs)"
| "writes_of task_id (Called_extract c # evs) = writes_of task_id evs"
| "writes_of task_id (Called_analyze c # evs) = writes_of task_id evs"

fun writes_elsewhere :: "string \<Rightarrow> event list \<Rightarrow> nat" where
  "writes_elsewhere task_id [] = 0"
| "writes_elsewhere task_id (Wrote t entry # evs) =
     (if t = task_id then writes_elsewhere task_id evs else Suc (writes_elsewhere task_id evs))"
| "writes_elsewhere task_id (Called_extract c # evs) = writes_elsewhere task_id evs"
| "writes_elsewhere task_id (Called_analyze c # evs) = writes_elsewhere task_id evs"

definition entry_shape :: "job \<Rightarrow> bool" where
  "entry_shape entry =
     (case status entry of
        Starting \<Rightarrow> progress entry = Some 0
      | Extracting_text \<Rightarrow> progress entry = Some 10
      | Analyzing \<Rightarrow> progress entry = Some 50
      | Completed \<Rightarrow> progress entry = Some 100 \<and> results entry \<noteq> None
      | Error \<Rightarrow> error entry \<noteq> None)"

text \<open>The state sequences a job entry can go through, from its submission on.\<close>

definition lifecycles :: "job_status list set" where
  "lifecycles = {[], [Starting], [Starting, Extracting_text, Error],
     [Starting, Extracting_text, Analyzing, Error],
     [Starting, Extracting_text, Analyzing, Completed]}"

section \<open>Concrete collaborators for the examples\<close>

text \<open>
  A question-answering collaborator that raises on one contract question, answers one
  with high confidence, one below the floor, and the remaining ones with \<open>0.5\<close>.
\<close>

definition qa_example :: qa_collaborator where
  "qa_example question context =
     (if question = ''Who are the parties?'' then Inl (Exception ''model failure'')
      else if question = ''What is the effective date?'' then Inr (''January 1, 2024'', 0.9)
      else if question = ''What are the payment terms?'' then Inr (''net 30'', 0.05)
      else Inr (''Delaware'', 0.5))"

text \<open>A named-entity recogniser that reports the same person twice.\<close>

definition nlp_example :: "string \<Rightarrow> pyexc + (string \<times> string) list" where
  "nlp_example text =
     Inr [(''PERSON'', ''John Smith''), (''ORG'', ''Tech Innovations Inc.''),
          (''PERSON'', ''John Smith''), (''CARDINAL'', ''thirty'')]"

definition t5_example :: "string \<Rightarrow> nat \<Rightarrow> pyexc + string" where
  "t5_example prompt max_length = Inr ''an agreement between two parties''"

definition t5_failing :: "string \<Rightarrow> nat \<Rightarrow> pyexc + string" where
  "t5_failing prompt max_length = Inl (Exception ''out of memory'')"

definition processor_example :: processor where
  "processor_example = \<lparr>nlp = nlp_example, qa_pipeline = qa_example, t5 = t5_example\<rparr>"

text \<open>
  A rendering of exceptions as \<open>str\<close> gives it (an \<open>HTTPException\<close> as its status
  code, a colon and the detail), an identifier generator, PDF readers and an empty store.
\<close>

function str_nat :: "nat \<Rightarrow> string" where
  "str_nat n =
     (if n < 10 then [char_of (48 + n)]
      else str_nat (n div 10) @ [char_of (48 + n mod 10)])"
  by pat_completeness auto
termination
  by (relation "measure id") auto

fun str_example :: "pyexc \<Rightarrow> string" where
  "str_example (Exception msg) = msg"
| "str_example (HTTPException code detail) = str_nat code @ '': '' @ detail"
| "str_example ValueError = ''ValueError''"
| "str_example KeyError = ''KeyError''"
| "str_example AttributeError = ''AttributeError''"

definition uuid_example :: "nat \<Rightarrow> string" where
  "uuid_example n = ''task-'' @ replicate n (CHR ''i'')"

definition reader_blank :: pdf_reader where
  "reader_blank pdf_file = Inr [''  '', [], [CHR 0x09, CHR 0xA0, CHR 0x85]]"

definition reader_example :: pdf_reader where
  "reader_example pdf_file = Inr [''This Agreement binds each Party.'', ''Rent: $1,500'']"

definition empty_state :: api_state where
  "empty_state =
     \<lparr>processing_status = Map.empty, background_tasks = [], uuid_calls = 0, events = []\<rparr>"

section \<open>Properties of the classifier\<close>

lemma map_eq_appendE:
  assumes "map f xs = ys @ zs"
  obtains us vs where "xs = us @ vs" "map f us = ys" "map f vs = zs"
proof -
  from assms have "xs = take (length ys) xs @ drop (length ys) xs
      \<and> map f (take (length ys) xs) = ys \<and> map f (drop (length ys) xs) = zs"
    by (metis append_eq_conv_conj append_take_drop_id drop_map take_map)
  then show thesis using that by blast
qed

lemma sublist_lower_iff:
  "sublist k (lower text) \<longleftrightarrow> (\<exists>pre seg post. text = pre @ seg @ post \<and> lower seg = k)"
proof
  assume "sublist k (lower text)"
  then obtain ps ss where "map lower_char text = ps @ (k @ ss)"
    by (auto simp: sublist_def lower_def)
  then obtain pre rest where 1: "text = pre @ rest" "map lower_char rest = k @ ss"
    by (rule map_eq_appendE)
  from 1(2) obtain seg post where 2: "rest = seg @ post" "map lower_char seg = k"
    by (rule map_eq_appendE)
  from 1(1) 2 have "text = pre @ seg @ post \<and> lower seg = k"
    by (simp add: lower_def)
  then show "\<exists>pre seg post. text = pre @ seg @ post \<and> lower seg = k"
    by blast
next
  assume "\<exists>pre seg post. text = pre @ seg @ post \<and> lower seg = k"
  then obtain pre seg post where "text = pre @ seg @ post" "lower seg = k"
    by blast
  then have "lower text = lower pre @ k @ lower post"
    by (simp add: lower_def)
  then show "sublist k (lower text)"
    unfolding sublist_def by blast
qed

lemma indicator_score_density:
  assumes "distinct kws" and "\<forall>k \<in> set kws. lower k = k"
  shows "indicator_score (lower text) kws = keyword_density text kws"
proof -
  have "\<And>k. k \<in> set kws \<Longrightarrow> occurs_ci k text \<longleftrightarrow> sublist k (lower text)"
    using assms(2) by (simp add: occurs_ci_def sublist_lower_iff)
  then have "{k \<in> set kws. occurs_ci k text} = set (filter (\<lambda>k. sublist k (lower text)) kws)"
    by auto
  moreover have "card (set (filter (\<lambda>k. sublist k (lower text)) kws))
      = length (filter (\<lambda>k. sublist k (lower text)) kws)"
    using assms(1) by (intro distinct_card) simp
  ultimately have "card {k \<in> set kws. occurs_ci k text}
      = length (filter (\<lambda>k. sublist k (lower text)) kws)"
    by (simp only:)
  moreover have "card (set kws) = length kws"
    using assms(1) by (simp add: distinct_card)
  ultimately show ?thesis
    by (simp add: indicator_score_def keyword_density_def)
qed

lemma indicator_score_bounds: "0 \<le> indicator_score t kws \<and> indicator_score t kws \<le> 1"
proof -
  have "length (filter (\<lambda>k. sublist k t) kws) \<le> length kws"
    by (rule length_filter_le)
  then show ?thesis
    by (cases "kws = []") (simp_all add: indicator_score_def)
qed

lemma max_from_split:
  "\<exists>us vs. best # xs = us @ max_from key best xs # vs
     \<and> (\<forall>u \<in> set us. key u < key (max_from key best xs))
     \<and> (\<forall>v \<in> set vs. key v \<le> key (max_from key best xs))"
proof (induction xs arbitrary: best)
  case Nil
  have "[best] = [] @ best # [] \<and> (\<forall>u \<in> set []. key u < key best)
      \<and> (\<forall>v \<in> set []. key v \<le> key best)"
    by simp
  then show ?case
    unfolding max_from.simps by (rule_tac x = "[]" in exI, rule_tac x = "[]" in exI)
next
  case (Cons x xs)
  show ?case
  proof (cases "key best < key x")
    case True
    let ?r = "max_from key x xs"
    have r: "max_from key best (x # xs) = ?r"
      using True by simp
    from Cons.IH [of x] obtain us vs where
      s: "x # xs = us @ ?r # vs" "\<forall>u \<in> set us. key u < key ?r" "\<forall>v \<in> set vs. key v \<le> key ?r"
      by blast
    have "x \<in> set (x # xs)" by simp
    then have "x \<in> set us \<or> x = ?r \<or> x \<in> set vs"
      unfolding s(1) by auto
    then have "key x \<le> key ?r" using s(2,3) by auto
    with True have "key best < key ?r" by simp
    with s have "best # x # xs = (best # us) @ ?r # vs
        \<and> (\<forall>u \<in> set (best # us). key u < key ?r) \<and> (\<forall>v \<in> set vs. key v \<le> key ?r)"
      by simp
    then show ?thesis
      unfolding r by (rule_tac x = "best # us" in exI, rule_tac x = vs in exI)
  next
    case False
    let ?r = "max_from key best xs"
    have r: "max_from key best (x # xs) = ?r"
      using False by simp
    from Cons.IH [of best] obtain us vs where
      s: "best # xs = us @ ?r # vs" "\<forall>u \<in> set us. key u < key ?r" "\<forall>v \<in> set vs. key v \<le> key ?r"
      by blast
    show ?thesis
    proof (cases us)
      case Nil
      from s(1) have "best # xs = ?r # vs" unfolding Nil append_Nil .
      then have e0: "best = ?r \<and> xs = vs" by (rule list.inject [THEN iffD1])
      from e0 have e1: "?r = best" by (rule conjunct1 [THEN sym])
      from e0 have e2: "vs = xs" by (rule conjunct2 [THEN sym])
      note e = e1 e2
      from False have "key x \<le> key best" by simp
      with s(3) e have "best # x # xs = [] @ ?r # (x # xs)
          \<and> (\<forall>u \<in> set []. key u < key ?r) \<and> (\<forall>v \<in> set (x # xs). key v \<le> key ?r)"
        by simp
      then show ?thesis
        unfolding r by (rule_tac x = "[]" in exI, rule_tac x = "x # xs" in exI)
    next
      case (Cons u us')
      from s(1) have "best # xs = u # (us' @ ?r # vs)" unfolding Cons append_Cons .
      then have b0: "best = u \<and> xs = us' @ ?r # vs" by (rule list.inject [THEN iffD1])
      from b0 have b1: "u = best" by (rule conjunct1 [THEN sym])
      from b0 have b2: "xs = us' @ ?r # vs" by (rule conjunct2)
      from s(2) have "\<forall>w \<in> set (best # us'). key w < key ?r" unfolding Cons b1 .
      then have lt: "key best < key ?r" "\<forall>w \<in> set us'. key w < key ?r"
        by simp_all
      from False lt(1) have ltx: "key x < key ?r" by simp
      from b2 have "best # x # xs = best # x # (us' @ ?r # vs)"
        by (rule arg_cong [of _ _ "\<lambda>z. best # x # z"])
      then have l: "best # x # xs = (best # x # us') @ ?r # vs"
        unfolding append_Cons .
      from lt ltx have "\<forall>w \<in> set (best # x # us'). key w < key ?r"
        by simp
      with l s(3) have "best # x # xs = (best # x # us') @ ?r # vs
          \<and> (\<forall>u \<in> set (best # x # us'). key u < key ?r) \<and> (\<forall>v \<in> set vs. key v \<le> key ?r)"
        by (intro conjI)
      then show ?thesis
        unfolding r by (rule_tac x = "best # x # us'" in exI, rule_tac x = vs in exI)
    qed
  qed
qed

lemma map_of_nth_distinct:
  assumes "distinct (map fst kvs)" "j < length kvs"
  shows "map_of kvs (fst (kvs ! j)) = Some (snd (kvs ! j))"
proof -
  have "(fst (kvs ! j), snd (kvs ! j)) \<in> set kvs"
    using assms(2) by simp
  with assms(1) show ?thesis by (simp only: map_of_eq_Some_iff)
qed

lemma py_max_assoc:
  fixes kvs :: "('k \<times> 'v::linorder) list"
  assumes d: "distinct (map fst kvs)" and ne: "kvs \<noteq> []"
  shows "\<exists>i < length kvs. py_max (map_of kvs) (map fst kvs) = Inr (fst (kvs ! i))
           \<and> (\<forall>j < length kvs. snd (kvs ! j) \<le> snd (kvs ! i))
           \<and> (\<forall>j < i. snd (kvs ! j) < snd (kvs ! i))"
proof -
  from ne obtain k ks where ks: "map fst kvs = k # ks"
    by (cases kvs) auto
  let ?p = "max_from (map_of kvs) k ks"
  from max_from_split [of k ks "map_of kvs"] obtain us vs where
    s: "k # ks = us @ ?p # vs"
       "\<forall>u \<in> set us. map_of kvs u < map_of kvs ?p"
       "\<forall>v \<in> set vs. map_of kvs v \<le> map_of kvs ?p"
    by blast
  let ?i = "length us"
  have keys: "map fst kvs = us @ ?p # vs"
    using ks s(1) by simp
  have len: "length kvs = length us + Suc (length vs)"
    using arg_cong [OF keys, of length] by simp
  then have i: "?i < length kvs" by simp
  have pi: "fst (kvs ! ?i) = ?p"
    using arg_cong [OF keys, of "\<lambda>l. l ! ?i"] i by (simp add: nth_append)
  have val: "\<And>j. j < length kvs \<Longrightarrow> map_of kvs (fst (kvs ! j)) = Some (snd (kvs ! j))"
    using d by (rule map_of_nth_distinct)
  have kp: "map_of kvs ?p = Some (snd (kvs ! ?i))"
    using val [OF i] pi by simp
  have before: "\<And>j. j < ?i \<Longrightarrow> fst (kvs ! j) \<in> set us"
  proof -
    fix j assume j: "j < ?i"
    with i have "fst (kvs ! j) = (map fst kvs) ! j" by simp
    also have "\<dots> = us ! j" unfolding keys using j by (simp add: nth_append)
    finally show "fst (kvs ! j) \<in> set us" using j by simp
  qed
  have after: "\<And>j. ?i < j \<Longrightarrow> j < length kvs \<Longrightarrow> fst (kvs ! j) \<in> set vs"
  proof -
    fix j assume j: "?i < j" "j < length kvs"
    then have "fst (kvs ! j) = (map fst kvs) ! j" by simp
    also have "\<dots> = vs ! (j - Suc ?i)" unfolding keys using j by (simp add: nth_append)
    finally show "fst (kvs ! j) \<in> set vs" using j len by simp
  qed
  have lt: "\<forall>j < ?i. snd (kvs ! j) < snd (kvs ! ?i)"
  proof (intro allI impI)
    fix j assume j: "j < ?i"
    with i have jl: "j < length kvs" by simp
    from before [OF j] s(2) have "map_of kvs (fst (kvs ! j)) < map_of kvs ?p" by blast
    then show "snd (kvs ! j) < snd (kvs ! ?i)"
      unfolding val [OF jl] kp by simp
  qed
  have le: "\<forall>j < length kvs. snd (kvs ! j) \<le> snd (kvs ! ?i)"
  proof (intro allI impI)
    fix j assume jl: "j < length kvs"
    consider "j < ?i" | "j = ?i" | "?i < j" by linarith
    then show "snd (kvs ! j) \<le> snd (kvs ! ?i)"
    proof cases
      case 1
      with lt show ?thesis by (simp add: less_imp_le)
    next
      case 2
      then show ?thesis by simp
    next
      case 3
      from after [OF 3 jl] s(3) have "map_of kvs (fst (kvs ! j)) \<le> map_of kvs ?p" by blast
      then show ?thesis unfolding val [OF jl] kp by simp
    qed
  qed
  have "py_max (map_of kvs) (map fst kvs) = Inr (fst (kvs ! ?i))"
    unfolding ks py_max_def pi by simp
  with i le lt show ?thesis by blast
qed


lemma doc_indicators_lowercase:
  "list_all (\<lambda>(doc_type, kws). distinct kws \<and> list_all (\<lambda>k. lower k = k) kws) doc_indicators"
  by code_simp

lemma scores_density:
  "map (\<lambda>(doc_type, indicators). (doc_type, indicator_score (lower text) indicators)) doc_indicators
     = map (\<lambda>(doc_type, keywords). (doc_type, keyword_density text keywords)) doc_indicators"
proof (rule map_cong [OF refl])
  fix e assume e: "e \<in> set doc_indicators"
  obtain d kws where dk: "e = (d, kws)" by (cases e)
  from doc_indicators_lowercase e dk have "distinct kws" "\<forall>k \<in> set kws. lower k = k"
    by (auto simp: list_all_iff)
  then have "indicator_score (lower text) kws = keyword_density text kws"
    by (rule indicator_score_density)
  then show "(case e of (doc_type, indicators) \<Rightarrow> (doc_type, indicator_score (lower text) indicators))
      = (case e of (doc_type, keywords) \<Rightarrow> (doc_type, keyword_density text keywords))"
    by (simp add: dk)
qed

lemma scores_bounds:
  assumes "j < length doc_indicators"
  shows "0 \<le> snd (map (\<lambda>(doc_type, indicators). (doc_type, indicator_score t indicators)) doc_indicators ! j)
       \<and> snd (map (\<lambda>(doc_type, indicators). (doc_type, indicator_score t indicators)) doc_indicators ! j) \<le> 1"
proof -
  obtain d kws where dk: "doc_indicators ! j = (d, kws)" by (cases "doc_indicators ! j")
  with assms show ?thesis
    using indicator_score_bounds [of t kws] by simp
qed

lemma classify_document_type_characterised:
  "\<exists>r i. classify_document_type text = Inr r
     \<and> all_scores r = map (\<lambda>(doc_type, keywords). (doc_type, keyword_density text keywords)) doc_indicators
     \<and> (\<forall>j < length (all_scores r). 0 \<le> snd (all_scores r ! j) \<and> snd (all_scores r ! j) \<le> 1)
     \<and> i < length (all_scores r)
     \<and> all_scores r ! i = (document_type r, confidence r)
     \<and> (\<forall>j < length (all_scores r). snd (all_scores r ! j) \<le> confidence r)
     \<and> (\<forall>j < i. snd (all_scores r ! j) < confidence r)"
proof -
  define scores where
    "scores = map (\<lambda>(doc_type, indicators). (doc_type, indicator_score (lower text) indicators)) doc_indicators"
  have keys: "map fst scores = map fst doc_indicators"
    unfolding scores_def by (simp add: case_prod_unfold comp_def)
  have d: "distinct (map fst scores)"
    unfolding keys by (simp add: doc_indicators_def)
  have ne: "scores \<noteq> []"
    unfolding scores_def by (simp add: doc_indicators_def)
  have len: "length scores = length doc_indicators"
    unfolding scores_def by simp
  from py_max_assoc [OF d ne] obtain i where
    i: "i < length scores"
       "py_max (map_of scores) (map fst scores) = Inr (fst (scores ! i))"
       "\<forall>j < length scores. snd (scores ! j) \<le> snd (scores ! i)"
       "\<forall>j < i. snd (scores ! j) < snd (scores ! i)"
    by blast
  have look: "map_of scores (fst (scores ! i)) = Some (snd (scores ! i))"
    using d i(1) by (rule map_of_nth_distinct)
  let ?r = "\<lparr>document_type = fst (scores ! i), confidence = snd (scores ! i), all_scores = scores\<rparr>"
  have run: "classify_document_type text = Inr ?r"
    unfolding classify_document_type_def Let_def scores_def [symmetric] i(2)
    by (simp add: look)
  have dens: "all_scores ?r
      = map (\<lambda>(doc_type, keywords). (doc_type, keyword_density text keywords)) doc_indicators"
    using scores_density [of "text"] by (simp add: scores_def)
  have bounds: "\<forall>j < length (all_scores ?r). 0 \<le> snd (all_scores ?r ! j) \<and> snd (all_scores ?r ! j) \<le> 1"
    using scores_bounds [of _ "lower text"] by (simp add: scores_def)
  have at: "all_scores ?r ! i = (document_type ?r, confidence ?r)"
    by simp
  from run dens bounds i(1,3,4) at show ?thesis
    by (intro exI [of _ "?r"] exI [of _ i]) simp
qed

text \<open>
  Claim C1. For every input text the classifier returns a result; its score map gives each
  document type of the taxonomy, in declaration order, the number of that type's keywords
  occurring case-insensitively as substrings of the text (each counted once) divided by the
  size of the keyword set; every score lies in \<open>[0,1]\<close>; the predicted type is at an index
  \<open>i\<close> of the score map whose score is maximal and strictly above every earlier score
  (first-declared wins ties); and the confidence is the predicted type's score.
\<close>

theorem classify_document_type_density_argmax:
  "\<exists>r i. classify_document_type text = Inr r
     \<and> all_scores r = map (\<lambda>(doc_type, keywords). (doc_type, keyword_density text keywords)) doc_indicators
     \<and> (\<forall>j < length (all_scores r). 0 \<le> snd (all_scores r ! j) \<and> snd (all_scores r ! j) \<le> 1)
     \<and> i < length (all_scores r)
     \<and> all_scores r ! i = (document_type r, confidence r)
     \<and> (\<forall>j < length (all_scores r). snd (all_scores r ! j) \<le> confidence r)
     \<and> (\<forall>j < i. snd (all_scores r ! j) < confidence r)"
  by (rule classify_document_type_characterised)

lemma classify_document_type_total: "\<exists>r. classify_document_type t = Inr r"
  using classify_document_type_characterised [of t] by blast

lemma classify_sample:
  "classify_document_type ''This Agreement: WHEREAS each Party makes a covenant'' =
     Inr \<lparr>document_type = ''contract'', confidence = 1,
          all_scores = [(''contract'', 1), (''license'', 0), (''lease'', 0),
                        (''employment'', 0), (''nda'', 0)]\<rparr>"
  by code_simp

theorem classify_document_type_density_argmax_witness:
  "\<exists>r i. classify_document_type ''This Agreement: WHEREAS each Party makes a covenant'' = Inr r
     \<and> document_type r = ''contract'' \<and> confidence r = 1
     \<and> all_scores r = map (\<lambda>(doc_type, keywords).
           (doc_type, keyword_density ''This Agreement: WHEREAS each Party makes a covenant'' keywords))
         doc_indicators
     \<and> i < length (all_scores r) \<and> all_scores r ! i = (''contract'', 1)"
proof -
  from classify_document_type_density_argmax
    [of "''This Agreement: WHEREAS each Party makes a covenant''"]
  obtain r i where
    r: "classify_document_type ''This Agreement: WHEREAS each Party makes a covenant'' = Inr r"
       "all_scores r = map (\<lambda>(doc_type, keywords).
           (doc_type, keyword_density ''This Agreement: WHEREAS each Party makes a covenant'' keywords))
         doc_indicators"
       "i < length (all_scores r)"
       "all_scores r ! i = (document_type r, confidence r)"
    by blast
  from r(1) have "r = \<lparr>document_type = ''contract'', confidence = 1,
          all_scores = [(''contract'', 1), (''license'', 0), (''lease'', 0),
                        (''employment'', 0), (''nda'', 0)]\<rparr>"
    unfolding classify_sample by simp
  then have "document_type r = ''contract''" "confidence r = 1"
    by simp_all
  with r show ?thesis by metis
qed

section \<open>Properties of the clause extractor\<close>

lemma set_update_subset: "set (AList.update k v al) \<subseteq> insert (k, v) (set al)"
  by (induction al) auto

lemma clauses_loop_floor:
  assumes "\<forall>kc \<in> set acc. clause_confidence (snd kc) > 0.1"
  shows "\<forall>kc \<in> set (clauses_loop qa t qs acc). clause_confidence (snd kc) > 0.1"
  using assms
proof (induction qs arbitrary: acc)
  case Nil
  then show ?case by simp
next
  case (Cons q qs)
  show ?case
  proof (cases "qa q t")
    case (Inl e)
    with Cons show ?thesis by simp
  next
    case (Inr r)
    obtain a s where r: "r = (a, s)" by (cases r)
    show ?thesis
    proof (cases "s > 0.1")
      case True
      let ?acc' = "AList.update (clause_key q) \<lparr>clause_text = a, clause_confidence = s\<rparr> acc"
      have "\<forall>kc \<in> set ?acc'. clause_confidence (snd kc) > 0.1"
        using set_update_subset [of "clause_key q" "\<lparr>clause_text = a, clause_confidence = s\<rparr>" acc]
          Cons.prems True by auto
      from Cons.IH [OF this] Inr r True show ?thesis by simp
    next
      case False
      with Cons Inr r show ?thesis by simp
    qed
  qed
qed

text \<open>
  Claim C8. Whatever the text, the document type and the behaviour of the
  question-answering collaborator, every clause in the returned map has a confidence
  strictly greater than \<open>0.1\<close>.
\<close>

theorem extract_key_clauses_above_floor:
  "(key, c) \<in> set (extract_key_clauses qa t doc_type) \<Longrightarrow> clause_confidence c > 0.1"
  using clauses_loop_floor [of "[]" qa t "questions_for doc_type"]
  unfolding extract_key_clauses_def by fastforce

lemma clauses_loop_other_key:
  "k \<notin> clause_key ` set qs \<Longrightarrow> map_of (clauses_loop qa t qs acc) k = map_of acc k"
proof (induction qs arbitrary: acc)
  case Nil
  then show ?case by simp
next
  case (Cons q qs)
  then have k: "k \<noteq> clause_key q" "k \<notin> clause_key ` set qs" by auto
  show ?case
    using Cons.IH [OF k(2)] k(1)
    by (auto simp: update_conv' split: sum.splits prod.splits)
qed

lemma clauses_loop_present:
  assumes "distinct (map clause_key qs)" "q \<in> set qs" "qa q t = Inr (a, s)" "s > 0.1"
  shows "map_of (clauses_loop qa t qs acc) (clause_key q)
           = Some \<lparr>clause_text = a, clause_confidence = s\<rparr>"
  using assms(1,2)
proof (induction qs arbitrary: acc)
  case Nil
  then show ?case by simp
next
  case (Cons q' qs)
  show ?case
  proof (cases "q' = q")
    case True
    from Cons.prems(1) True have "clause_key q \<notin> clause_key ` set qs" by auto
    from clauses_loop_other_key [OF this] True assms(3,4) show ?thesis
      by (simp add: update_conv')
  next
    case False
    with Cons.prems have "distinct (map clause_key qs)" "q \<in> set qs" by auto
    from Cons.IH [OF this] show ?thesis
      by (auto split: sum.splits prod.splits)
  qed
qed

lemma questions_for_keys_distinct: "distinct (map clause_key (questions_for doc_type))"
  unfolding questions_for_def by (simp add: clause_key_def prefix_def)


text \<open>
  Claim C6. Within one call, whatever the collaborator does on the other questions
  (raising included), a selected question whose answer clears the confidence floor has
  its clause, with that answer and score, in the returned map under its key.
\<close>

theorem extract_key_clauses_isolates_failures:
  assumes "q \<in> set (questions_for doc_type)" and "qa q t = Inr (a, s)" and "s > 0.1"
  shows "map_of (extract_key_clauses qa t doc_type) (clause_key q)
           = Some \<lparr>clause_text = a, clause_confidence = s\<rparr>"
  unfolding extract_key_clauses_def
  using questions_for_keys_distinct assms by (rule clauses_loop_present)

lemma extract_key_clauses_example:
  "extract_key_clauses qa_example ''some text'' (Some ''contract'') =
     [(''the effective date'', \<lparr>clause_text = ''January 1, 2024'', clause_confidence = 9 / 10\<rparr>),
      (''the governing law'', \<lparr>clause_text = ''Delaware'', clause_confidence = 1 / 2\<rparr>)]"
  by code_simp

theorem extract_key_clauses_above_floor_witness:
  "(''the governing law'', \<lparr>clause_text = ''Delaware'', clause_confidence = 1 / 2\<rparr>)
      \<in> set (extract_key_clauses qa_example ''some text'' (Some ''contract''))
   \<and> clause_confidence \<lparr>clause_text = ''Delaware'', clause_confidence = 1 / 2\<rparr> > 0.1"
proof -
  have m: "(''the governing law'', \<lparr>clause_text = ''Delaware'', clause_confidence = 1 / 2\<rparr>)
      \<in> set (extract_key_clauses qa_example ''some text'' (Some ''contract''))"
    unfolding extract_key_clauses_example by simp
  from m extract_key_clauses_above_floor [OF m] show ?thesis
    by (rule conjI)
qed

theorem extract_key_clauses_isolates_failures_witness:
  "qa_example ''Who are the parties?'' ''some text'' = Inl (Exception ''model failure'')
   \<and> map_of (extract_key_clauses qa_example ''some text'' (Some ''contract'')) ''the effective date''
       = Some \<lparr>clause_text = ''January 1, 2024'', clause_confidence = 9 / 10\<rparr>"
proof -
  have q: "''What is the effective date?'' \<in> set (questions_for (Some ''contract''))"
    by (simp add: questions_for_def)
  have r: "qa_example ''What is the effective date?'' ''some text'' = Inr (''January 1, 2024'', 9 / 10)"
    by (simp add: qa_example_def)
  have k: "clause_key ''What is the effective date?'' = ''the effective date''"
    by code_simp
  have f: "qa_example ''Who are the parties?'' ''some text'' = Inl (Exception ''model failure'')"
    by (simp add: qa_example_def)
  have "(9 / 10 :: real) > 0.1" by simp
  from extract_key_clauses_isolates_failures
    [where qa = qa_example and t = "''some text''", OF q r this] f show ?thesis
    unfolding k by simp
qed

section \<open>Properties of the entity extractor\<close>

lemma update_fresh_key: "k \<notin> fst ` set al \<Longrightarrow> AList.update k v al = al @ [(k, v)]"
  by (induction al) auto

lemma add_entity_map:
  assumes "distinct (map fst es)"
  shows "add_entity es e
           = map (\<lambda>(l, spans). (l, if l = fst e then spans @ [snd e] else spans)) es"
proof (cases "map_of es (fst e)")
  case None
  then have "fst e \<notin> fst ` set es"
    by (simp add: map_of_eq_None_iff)
  then have "map (\<lambda>(l, spans). (l, if l = fst e then spans @ [snd e] else spans)) es = es"
    by (induction es) auto
  with None show ?thesis by (simp add: add_entity_def)
next
  case (Some spans)
  have "map_of es k = Some sp \<Longrightarrow> distinct (map fst es) \<Longrightarrow>
      AList.update k (sp @ [t]) es = map (\<lambda>(l, spans). (l, if l = k then spans @ [t] else spans)) es"
    for k sp t
  proof (induction es)
    case Nil
    then show ?case by simp
  next
    case (Cons p es)
    obtain l0 s0 where p: "p = (l0, s0)" by (cases p)
    show ?case
    proof (cases "l0 = k")
      case True
      with Cons.prems p have "k \<notin> fst ` set es" "s0 = sp" by auto
      then have "map (\<lambda>(l, spans). (l, if l = k then spans @ [t] else spans)) es = es"
        by (induction es) auto
      with True p \<open>s0 = sp\<close> show ?thesis by simp
    next
      case False
      with Cons p show ?thesis by simp
    qed
  qed
  from this [OF Some assms] Some show ?thesis by (simp add: add_entity_def)
qed

lemma foldl_add_entity:
  "distinct (map fst es) \<Longrightarrow>
   foldl add_entity es ents
     = map (\<lambda>(l, spans). (l, spans @ map snd (filter (\<lambda>e. fst e = l) ents))) es"
proof (induction ents arbitrary: es)
  case Nil
  then show ?case by (simp add: case_prod_unfold)
next
  case (Cons e ents)
  let ?es' = "map (\<lambda>(l, spans). (l, if l = fst e then spans @ [snd e] else spans)) es"
  have keys: "map fst ?es' = map fst es"
    by (simp add: case_prod_unfold comp_def)
  have "distinct (map fst ?es')" unfolding keys by (rule Cons.prems)
  from Cons.IH [OF this] add_entity_map [OF Cons.prems, of e] show ?case
    by (simp add: case_prod_unfold comp_def)
qed

lemma extract_legal_entities_eq:
  assumes "ner t = Inr ents"
  shows "extract_legal_entities ner t
           = Inr (map (\<lambda>l. (l, map snd (filter (\<lambda>e. fst e = l) ents))) entity_labels
                  @ [(''monetary_amounts'', findall_money t)])"
proof -
  have d: "distinct (map fst empty_entities)"
    by (simp add: empty_entities_def)
  have f: "foldl add_entity empty_entities ents
      = map (\<lambda>l. (l, map snd (filter (\<lambda>e. fst e = l) ents))) entity_labels"
    unfolding foldl_add_entity [OF d] by (simp add: empty_entities_def entity_labels_def)
  have "''monetary_amounts'' \<notin> fst ` set (foldl add_entity empty_entities ents)"
    unfolding f by (simp add: entity_labels_def)
  from update_fresh_key [OF this] assms show ?thesis
    by (simp add: extract_legal_entities_def f)
qed

lemma findall_rent: "findall_money ''$1,500 per month... Security Deposit: $1,500'' = [''$1,500'', ''$1,500'']"
  by code_simp


text \<open>
  Claim C4, as amended. Whenever the recogniser returns, the extractor stores under each
  of the five categories exactly the spans the recogniser gave that label, in the
  recogniser's order and with every repetition kept, drops the spans of any other label,
  and stores every match of the currency pattern under \<open>monetary_amounts\<close>.
\<close>

theorem extract_legal_entities_keeps_every_span:
  assumes "ner t = Inr ents"
  shows "extract_legal_entities ner t
           = Inr (map (\<lambda>l. (l, map snd (filter (\<lambda>e. fst e = l) ents))) entity_labels
                  @ [(''monetary_amounts'', findall_money t)])"
  using assms by (rule extract_legal_entities_eq)

theorem extract_legal_entities_keeps_every_span_witness:
  "nlp_example ''John Smith met John Smith for $5'' =
     Inr [(''PERSON'', ''John Smith''), (''ORG'', ''Tech Innovations Inc.''),
          (''PERSON'', ''John Smith''), (''CARDINAL'', ''thirty'')]
   \<and> extract_legal_entities nlp_example ''John Smith met John Smith for $5'' =
     Inr [(''PERSON'', [''John Smith'', ''John Smith'']), (''ORG'', [''Tech Innovations Inc.'']),
          (''DATE'', []), (''MONEY'', []), (''GPE'', []), (''monetary_amounts'', [''$5''])]"
proof -
  have n: "nlp_example ''John Smith met John Smith for $5'' =
     Inr [(''PERSON'', ''John Smith''), (''ORG'', ''Tech Innovations Inc.''),
          (''PERSON'', ''John Smith''), (''CARDINAL'', ''thirty'')]"
    by (simp add: nlp_example_def)
  have m: "findall_money ''John Smith met John Smith for $5'' = [''$5'']"
    by code_simp
  from extract_legal_entities_keeps_every_span
    [where ner = nlp_example and t = "''John Smith met John Smith for $5''", OF n] n
  show ?thesis
    unfolding m by (simp add: entity_labels_def)
qed

text \<open>
  Claim C4 as stated fails: a recogniser that reports the same person twice gets both
  spans stored under \<open>PERSON\<close>.
\<close>

theorem extract_legal_entities_duplicates_counterexample:
  "extract_legal_entities nlp_example ''John Smith met John Smith'' =
     Inr [(''PERSON'', [''John Smith'', ''John Smith'']), (''ORG'', [''Tech Innovations Inc.'']),
          (''DATE'', []), (''MONEY'', []), (''GPE'', []), (''monetary_amounts'', [])]
   \<and> \<not> deduplicated
        [(''PERSON'', [''John Smith'', ''John Smith'']), (''ORG'', [''Tech Innovations Inc.'']),
         (''DATE'', []), (''MONEY'', []), (''GPE'', []), (''monetary_amounts'', [])]"
proof
  show "extract_legal_entities nlp_example ''John Smith met John Smith'' =
     Inr [(''PERSON'', [''John Smith'', ''John Smith'']), (''ORG'', [''Tech Innovations Inc.'']),
          (''DATE'', []), (''MONEY'', []), (''GPE'', []), (''monetary_amounts'', [])]"
    by code_simp
next
  show "\<not> deduplicated
        [(''PERSON'', [''John Smith'', ''John Smith'']), (''ORG'', [''Tech Innovations Inc.'']),
         (''DATE'', []), (''MONEY'', []), (''GPE'', []), (''monetary_amounts'', [])]"
    by (simp add: deduplicated_def)
qed

text \<open>
  Claim C5. On the text \<open>$1,500 per month... Security Deposit: $1,500\<close>, whatever the
  recogniser returns, the extractor's \<open>monetary_amounts\<close> entry is the list of both
  occurrences of \<open>$1,500\<close>, in text order.
\<close>

theorem extract_legal_entities_rent_amounts:
  assumes "ner ''$1,500 per month... Security Deposit: $1,500'' = Inr ents"
  shows "\<exists>es. extract_legal_entities ner ''$1,500 per month... Security Deposit: $1,500'' = Inr es
           \<and> map_of es ''monetary_amounts'' = Some [''$1,500'', ''$1,500'']"
proof -
  have "map_of (map (\<lambda>l. (l, map snd (filter (\<lambda>e. fst e = l) ents))) entity_labels
                  @ [(''monetary_amounts'', [''$1,500'', ''$1,500''])]) ''monetary_amounts''
          = Some [''$1,500'', ''$1,500'']"
    by (simp add: entity_labels_def)
  with extract_legal_entities_eq
    [where ner = ner and t = "''$1,500 per month... Security Deposit: $1,500''", OF assms]
  show ?thesis
    unfolding findall_rent by blast
qed

theorem extract_legal_entities_rent_amounts_witness:
  "\<exists>es. extract_legal_entities nlp_example ''$1,500 per month... Security Deposit: $1,500'' = Inr es
      \<and> map_of es ''monetary_amounts'' = Some [''$1,500'', ''$1,500'']"
proof -
  have "nlp_example ''$1,500 per month... Security Deposit: $1,500'' =
     Inr [(''PERSON'', ''John Smith''), (''ORG'', ''Tech Innovations Inc.''),
          (''PERSON'', ''John Smith''), (''CARDINAL'', ''thirty'')]"
    by (simp add: nlp_example_def)
  then show ?thesis
    by (rule extract_legal_entities_rent_amounts [where ner = nlp_example])
qed

section \<open>Properties of the orchestrator\<close>

text \<open>
  Claim C3. The call fails exactly when the entity recogniser or the summarizer raises on
  the preprocessed text, whatever the question-answering collaborator does; a failed call
  is an exception and carries no analysis result.
\<close>

theorem analyze_document_fails_iff_required_stage_fails:
  "isl (analyze_document self now t)
     \<longleftrightarrow> isl (nlp self (preprocess_text t))
          \<or> isl (t5 self (''summarize: '' @ preprocess_text t) 150)"
proof -
  obtain r where r: "classify_document_type (preprocess_text t) = Inr r"
    using classify_document_type_total by blast
  show ?thesis
  proof (cases "nlp self (preprocess_text t)")
    case (Inl e)
    with r show ?thesis
      by (simp add: analyze_document_def Let_def extract_legal_entities_def)
  next
    case (Inr ents)
    with r show ?thesis
      by (cases "t5 self (''summarize: '' @ preprocess_text t) 150")
         (simp_all add: analyze_document_def Let_def extract_legal_entities_def
            generate_summary_def)
  qed
qed

theorem analyze_document_fails_iff_required_stage_fails_witness:
  "isl (analyze_document \<lparr>nlp = nlp_example, qa_pipeline = qa_example, t5 = t5_failing\<rparr>
          ''2024-01-01T00:00:00'' ''This Agreement'')
   \<and> \<not> isl (analyze_document processor_example ''2024-01-01T00:00:00'' ''This Agreement'')"
  using analyze_document_fails_iff_required_stage_fails
      [of "\<lparr>nlp = nlp_example, qa_pipeline = qa_example, t5 = t5_failing\<rparr>"
          "''2024-01-01T00:00:00''" "''This Agreement''"]
    analyze_document_fails_iff_required_stage_fails
      [of processor_example "''2024-01-01T00:00:00''" "''This Agreement''"]
  by (simp add: processor_example_def nlp_example_def t5_failing_def t5_example_def)

section \<open>Properties of the job store and the endpoints\<close>

lemma writes_of_append: "writes_of t (xs @ ys) = writes_of t xs @ writes_of t ys"
  by (induction t xs rule: writes_of.induct) simp_all

lemma writes_elsewhere_append:
  "writes_elsewhere t (xs @ ys) = writes_elsewhere t xs + writes_elsewhere t ys"
  by (induction t xs rule: writes_elsewhere.induct) simp_all

lemma process_pdf_background_events:
  "\<exists>new. events (process_pdf_background str_of reader self now tid c st) = events st @ new
     \<and> writes_elsewhere tid new = 0
     \<and> list_all entry_shape (writes_of tid new)
     \<and> Starting # map status (writes_of tid new) \<in> lifecycles"
proof (cases "extract_text_from_pdf str_of reader c")
  case (Inl e)
  then show ?thesis
    by (simp add: process_pdf_background_def process_pdf_try_def Let_def write_status_def
        log_event_def entry_shape_def lifecycles_def)
next
  case (Inr t)
  show ?thesis
  proof (cases "strip t = []")
    case True
    with Inr show ?thesis
      by (simp add: process_pdf_background_def process_pdf_try_def Let_def write_status_def
          log_event_def entry_shape_def lifecycles_def)
  next
    case False
    with Inr show ?thesis
      by (cases "analyze_document self now t")
         (simp_all add: process_pdf_background_def process_pdf_try_def Let_def write_status_def
            log_event_def entry_shape_def lifecycles_def)
  qed
qed

lemma submit_and_run_events:
  assumes "background_tasks st = []"
  shows "\<exists>new. events (submit_and_run str_of uuid4 reader self now file st) = events st @ new
     \<and> writes_elsewhere (uuid4 (uuid_calls st)) new = 0
     \<and> list_all entry_shape (writes_of (uuid4 (uuid_calls st)) new)
     \<and> map status (writes_of (uuid4 (uuid_calls st)) new) \<in> lifecycles"
proof -
  let ?tid = "uuid4 (uuid_calls st)"
  let ?start = "\<lparr>status = Starting, progress = Some 0, results = None, error = None\<rparr>"
  show ?thesis
  proof (cases "filename file")
    case None
    with assms have "events (submit_and_run str_of uuid4 reader self now file st) = events st"
      by (simp add: submit_and_run_def analyze_pdf_document_def analyze_pdf_try_def)
    then show ?thesis
      by (intro exI [of _ "[]"]) (simp add: lifecycles_def)
  next
    case (Some name)
    show ?thesis
    proof (cases "suffix ''.pdf'' (lower name)")
      case False
      with Some assms
      have "events (submit_and_run str_of uuid4 reader self now file st) = events st"
        by (simp add: submit_and_run_def analyze_pdf_document_def analyze_pdf_try_def)
      then show ?thesis
      by (intro exI [of _ "[]"]) (simp add: lifecycles_def)
    next
      case True
      show ?thesis
      proof (cases "read file")
        case (Inl e)
        with Some True assms
        have "events (submit_and_run str_of uuid4 reader self now file st)
            = events st @ [Wrote ?tid ?start]"
          by (simp add: submit_and_run_def analyze_pdf_document_def analyze_pdf_try_def Let_def
              write_status_def)
        then show ?thesis
          by (intro exI [of _ "[Wrote ?tid ?start]"]) (simp add: lifecycles_def entry_shape_def)
      next
        case (Inr c)
        define st2 where "st2 = (write_status ?tid ?start
            (st\<lparr>uuid_calls := Suc (uuid_calls st)\<rparr>))\<lparr>background_tasks := []\<rparr>"
        have ev2: "events st2 = events st @ [Wrote ?tid ?start]"
          by (simp add: st2_def write_status_def)
        from Some True Inr assms
        have run: "submit_and_run str_of uuid4 reader self now file st
            = process_pdf_background str_of reader self now ?tid c st2"
          by (simp add: submit_and_run_def analyze_pdf_document_def analyze_pdf_try_def Let_def
              write_status_def st2_def)
        from process_pdf_background_events [of str_of reader self now ?tid c st2]
        obtain new where new:
          "events (process_pdf_background str_of reader self now ?tid c st2) = events st2 @ new"
          "writes_elsewhere ?tid new = 0"
          "list_all entry_shape (writes_of ?tid new)"
          "Starting # map status (writes_of ?tid new) \<in> lifecycles"
          by blast
        from new ev2 run show ?thesis
          by (intro exI [of _ "Wrote ?tid ?start # new"]) (simp add: entry_shape_def)
      qed
    qed
  qed
qed

lemma lifecycles_forward:
  assumes "map status ws \<in> lifecycles"
  shows "sorted_wrt (\<lambda>a b. rank (status a) < rank (status b)) ws
       \<and> (\<forall>s \<in> set (butlast (map status ws)). \<not> terminal s)
       \<and> (ws \<noteq> [] \<longrightarrow> status (hd ws) = Starting)"
proof -
  have s: "sorted_wrt (\<lambda>a b. rank (status a) < rank (status b)) ws
      = sorted_wrt (\<lambda>a b. rank a < rank b) (map status ws)"
    by (simp add: sorted_wrt_map)
  have h: "ws \<noteq> [] \<Longrightarrow> status (hd ws) = hd (map status ws)"
    by (simp add: hd_map)
  from assms show ?thesis
    unfolding s lifecycles_def using h by (auto simp: terminal_def)
qed

text \<open>
  Claim C2. For a job submitted while no other task is pending, the entries written to its
  key from the submission to the end of its background run are all the writes of that
  run; their states are strictly increasing in the order
  \<open>STARTING < EXTRACTING_TEXT < ANALYZING < {COMPLETED, ERROR}\<close>, beginning with
  \<open>STARTING\<close>; only the last entry written can be terminal; and each entry carries the
  progress, result or error of its state.
\<close>

theorem job_status_only_moves_forward:
  assumes "background_tasks st = []"
  shows "\<exists>new. events (submit_and_run str_of uuid4 reader self now file st) = events st @ new
     \<and> writes_elsewhere (uuid4 (uuid_calls st)) new = 0
     \<and> sorted_wrt (\<lambda>a b. rank (status a) < rank (status b))
          (writes_of (uuid4 (uuid_calls st)) new)
     \<and> (\<forall>s \<in> set (butlast (map status (writes_of (uuid4 (uuid_calls st)) new))). \<not> terminal s)
     \<and> (writes_of (uuid4 (uuid_calls st)) new \<noteq> []
          \<longrightarrow> status (hd (writes_of (uuid4 (uuid_calls st)) new)) = Starting)
     \<and> list_all entry_shape (writes_of (uuid4 (uuid_calls st)) new)"
proof -
  from submit_and_run_events [OF assms, of str_of uuid4 reader self now "file"]
  obtain new where new:
    "events (submit_and_run str_of uuid4 reader self now file st) = events st @ new"
    "writes_elsewhere (uuid4 (uuid_calls st)) new = 0"
    "list_all entry_shape (writes_of (uuid4 (uuid_calls st)) new)"
    "map status (writes_of (uuid4 (uuid_calls st)) new) \<in> lifecycles"
    by blast
  from lifecycles_forward [OF new(4)] new(1,2,3) show ?thesis
    by blast
qed

lemma submit_and_run_example:
  "map status (writes_of (uuid_example 0)
      (events (submit_and_run str_example uuid_example reader_example processor_example
                 ''2024-01-01T00:00:00''
                 \<lparr>filename = Some ''lease.PDF'', read = Inr ''%PDF-1.4''\<rparr> empty_state)))
     = [Starting, Extracting_text, Analyzing, Completed]"
  by code_simp

theorem job_status_only_moves_forward_witness:
  "background_tasks empty_state = []
   \<and> map status (writes_of (uuid_example 0)
        (events (submit_and_run str_example uuid_example reader_example processor_example
                   ''2024-01-01T00:00:00''
                   \<lparr>filename = Some ''lease.PDF'', read = Inr ''%PDF-1.4''\<rparr> empty_state)))
       = [Starting, Extracting_text, Analyzing, Completed]
   \<and> sorted_wrt (\<lambda>a b. rank (status a) < rank (status b))
        (writes_of (uuid_example 0)
          (events (submit_and_run str_example uuid_example reader_example processor_example
                     ''2024-01-01T00:00:00''
                     \<lparr>filename = Some ''lease.PDF'', read = Inr ''%PDF-1.4''\<rparr> empty_state)))"
proof -
  have b: "background_tasks empty_state = []"
    by (simp add: empty_state_def)
  have e: "events empty_state = []" "uuid_calls empty_state = 0"
    by (simp_all add: empty_state_def)
  from job_status_only_moves_forward [OF b, of str_example uuid_example reader_example
      processor_example "''2024-01-01T00:00:00''"
      "\<lparr>filename = Some ''lease.PDF'', read = Inr ''%PDF-1.4''\<rparr>"]
  have "sorted_wrt (\<lambda>a b. rank (status a) < rank (status b))
        (writes_of (uuid_example 0)
          (events (submit_and_run str_example uuid_example reader_example processor_example
                     ''2024-01-01T00:00:00''
                     \<lparr>filename = Some ''lease.PDF'', read = Inr ''%PDF-1.4''\<rparr> empty_state)))"
    unfolding e by auto
  with b submit_and_run_example show ?thesis
    by (intro conjI)
qed

text \<open>
  Claim C7. When the text extraction returns a string that is empty after stripping, the
  background run writes \<open>EXTRACTING_TEXT\<close>, calls the extraction, writes the error entry
  with the message about the failed extraction, and does nothing else: no \<open>ANALYZING\<close>
  entry is written and the analysis pipeline is not called.
\<close>

theorem process_pdf_background_empty_text:
  assumes "extract_text_from_pdf str_of reader pdf_content = Inr t" and "strip t = []"
  shows "process_pdf_background str_of reader self now task_id pdf_content st
     = st\<lparr>processing_status := (processing_status st)(task_id \<mapsto>
              \<lparr>status = Error, progress = None, results = None,
               error = Some ''Could not extract text from PDF''\<rparr>),
           events := events st @
             [Wrote task_id \<lparr>status = Extracting_text, progress = Some 10, results = None, error = None\<rparr>,
              Called_extract pdf_content,
              Wrote task_id \<lparr>status = Error, progress = None, results = None,
                             error = Some ''Could not extract text from PDF''\<rparr>]\<rparr>"
  using assms
  by (simp add: process_pdf_background_def process_pdf_try_def Let_def write_status_def log_event_def)

theorem process_pdf_background_empty_text_witness:
  "extract_text_from_pdf str_example reader_blank ''%PDF-1.4'' = Inr []
   \<and> get_processing_status ''job-1''
        (process_pdf_background str_example reader_blank processor_example ''2024-01-01T00:00:00''
           ''job-1'' ''%PDF-1.4'' empty_state)
       = Inr \<lparr>status = Error, progress = None, results = None,
              error = Some ''Could not extract text from PDF''\<rparr>
   \<and> events (process_pdf_background str_example reader_blank processor_example
               ''2024-01-01T00:00:00'' ''job-1'' ''%PDF-1.4'' empty_state)
       = [Wrote ''job-1'' \<lparr>status = Extracting_text, progress = Some 10, results = None, error = None\<rparr>,
          Called_extract ''%PDF-1.4'',
          Wrote ''job-1'' \<lparr>status = Error, progress = None, results = None,
                          error = Some ''Could not extract text from PDF''\<rparr>]"
proof -
  have x: "extract_text_from_pdf str_example reader_blank ''%PDF-1.4'' = Inr []"
    by code_simp
  have s: "strip [] = []"
    by (simp add: strip_def)
  from process_pdf_background_empty_text [OF x s, of processor_example
      "''2024-01-01T00:00:00''" "''job-1''" empty_state] x
  show ?thesis
    by (simp add: get_processing_status_def empty_state_def)
qed

text \<open>
  Claim C9, evaluated on the code. An empty text never reaches the analysis pipeline (the
  state, its call log included, is unchanged), but the \<open>HTTPException(400)\<close> raised for it
  is caught by the endpoint's own \<open>except Exception\<close> and reported with status 500, the
  status of an internal failure.
\<close>

theorem analyze_document_endpoint_empty_text:
  "analyze_document_endpoint str_of self now [] st
     = (Inl (HTTPException 500 (str_of (HTTPException 400 ''No document content provided''))), st)"
  by (simp add: analyze_document_endpoint_def analyze_document_try_def)

text \<open>
  Claim C10. A submission whose file name does not end in \<open>.pdf\<close>, letter case ignored, is
  answered with an error and leaves the whole state as it was: no identifier is drawn, no
  entry is written, no task is queued.
\<close>

theorem analyze_pdf_document_rejects_other_names:
  assumes "filename file = Some name" and "\<not> suffix ''.pdf'' (lower name)"
  shows "analyze_pdf_document str_of uuid4 file st
           = (Inl (HTTPException 500 (str_of (HTTPException 400 ''File must be a PDF''))), st)"
  using assms by (simp add: analyze_pdf_document_def analyze_pdf_try_def)

theorem analyze_pdf_document_rejects_other_names_witness:
  "\<not> suffix ''.pdf'' (lower ''notes.PDF.txt'')
   \<and> analyze_pdf_document str_example uuid_example
        \<lparr>filename = Some ''notes.PDF.txt'', read = Inr ''hello''\<rparr> empty_state
       = (Inl (HTTPException 500 ''400: File must be a PDF''), empty_state)
   \<and> get_processing_status (uuid_example 0)
        (snd (analyze_pdf_document str_example uuid_example
                \<lparr>filename = Some ''notes.PDF.txt'', read = Inr ''hello''\<rparr> empty_state))
       = Inl (HTTPException 404 ''Task not found'')"
proof -
  have n: "\<not> suffix ''.pdf'' (lower ''notes.PDF.txt'')"
    by code_simp
  have f: "filename \<lparr>filename = Some ''notes.PDF.txt'', read = Inr ''hello''\<rparr> = Some ''notes.PDF.txt''"
    by simp
  have d: "str_example (HTTPException 400 ''File must be a PDF'') = ''400: File must be a PDF''"
    by code_simp
  from analyze_pdf_document_rejects_other_names [OF f n, of str_example uuid_example empty_state] n
  show ?thesis
    unfolding d by (simp add: get_processing_status_def empty_state_def)
qed

end
